theory Spec2Isabelle
  imports Main
begin

section \<open>Objects, keys and values\<close>

text \<open>
  The module \<^verbatim>\<open>inject/injectors.py\<close> is embedded over an explicit object store.
  Python objects are compared by identity, so scope objects and injector objects are
  references into the store, and a value handed to \<^verbatim>\<open>bind\<close> or returned by
  \<^verbatim>\<open>get\<close> is a reference (or \<^verbatim>\<open>None\<close>): two values are equal exactly when they
  are the same object.
\<close>

type_synonym sref = nat
type_synonym iref = nat

text \<open>Type keys: the four classes the module itself binds, and any other key.\<close>

datatype key = ApplicationScope | ThreadScope | RequestScope | Injector | Type nat

text \<open>
  An exception raised by code outside the module is an instance of \<^verbatim>\<open>Exception\<close>
  or it is not (\<^verbatim>\<open>KeyboardInterrupt\<close>, \<^verbatim>\<open>SystemExit\<close>, \<^verbatim>\<open>GeneratorExit\<close>);
  \<^verbatim>\<open>except Exception\<close> catches the first kind only.
\<close>

datatype exn = Exception nat | BaseException nat

definition is_Exception :: "exn \<Rightarrow> bool" where
  "is_Exception e = (case e of Exception _ \<Rightarrow> True | BaseException _ \<Rightarrow> False)"

datatype val = PyNone | ScopeObj sref | InjectorObj iref | Obj nat

text \<open>
  A zero-argument callable (a factory, or a type key that is called to autobind it) is
  code outside the module. It is represented by what a call does: raise, return an
  existing object, or construct a new object.
\<close>

datatype callable = Raises exn | Returns val | Constructs

datatype error =
    InjectorAlreadyRegistered iref
  | NoInjectorRegistered
  | NotBoundError key
  | AutobindingFailed key exn
  | ValueError
  | Raised exn
  | NothingBound key

record scope =
  bindings :: "key \<rightharpoonup> val"
  factories :: "key \<rightharpoonup> callable"

text \<open>The instance attributes of an \<^verbatim>\<open>Injector\<close> object.\<close>

record injector_obj =
  autobind :: bool
  scopes :: "key \<rightharpoonup> sref"
  scopes_stack :: "sref list"
  app_scope :: sref

text \<open>
  The whole state: the class attribute \<^verbatim>\<open>Injector.injector\<close>, the injector objects,
  the scope objects, and the allocation counters.
\<close>

record world =
  cls_injector :: "iref option"
  objs :: "iref \<Rightarrow> injector_obj"
  heap :: "sref \<Rightarrow> scope"
  next_injector :: nat
  next_scope :: nat
  next_obj :: nat

definition upd :: "world \<Rightarrow> iref \<Rightarrow> (injector_obj \<Rightarrow> injector_obj) \<Rightarrow> world" where
  "upd w self f = w\<lparr>objs := (objs w)(self := f (objs w self))\<rparr>"

definition call :: "callable \<Rightarrow> world \<Rightarrow> (exn + val) \<times> world" where
  "call c w =
     (case c of
        Raises e \<Rightarrow> (Inl e, w)
      | Returns v \<Rightarrow> (Inr v, w)
      | Constructs \<Rightarrow> (Inr (Obj (next_obj w)), w\<lparr>next_obj := Suc (next_obj w)\<rparr>))"

section \<open>Scopes\<close>

text \<open>
  Modelled from the spec: the module \<^verbatim>\<open>inject.scopes\<close> (the classes
  \<^verbatim>\<open>ApplicationScope\<close>, \<^verbatim>\<open>ThreadScope\<close>, \<^verbatim>\<open>RequestScope\<close>) is not among the
  sources. The operations below follow the scope contract of the specification: two
  independent mappings, \<^verbatim>\<open>bind\<close> overwrites, \<^verbatim>\<open>unbind\<close> is idempotent, \<^verbatim>\<open>get\<close>
  returns the stored instance or else calls the factory once and stores its result.
  The three variants share this contract; the partition of the thread and request
  storage by thread and by request is outside the model (one thread, inside a request).
  Calling \<^verbatim>\<open>get\<close> with neither a binding nor a factory is outside the contract and is the
  error \<open>NothingBound\<close>; an exception of the factory is passed on as \<open>Raised\<close>.
\<close>

text \<open>
  Modelled from the spec: the state of a scope object (class \<^verbatim>\<open>Scope\<close> of \<^verbatim>\<open>inject.scopes\<close>) when it is
  created: no binding and no factory.
\<close>

definition empty_scope :: scope where
  "empty_scope = \<lparr>bindings = Map.empty, factories = Map.empty\<rparr>"

text \<open>
  Modelled from the spec: the constructors \<^verbatim>\<open>ApplicationScope()\<close>, \<^verbatim>\<open>ThreadScope()\<close> and
  \<^verbatim>\<open>RequestScope()\<close> of \<^verbatim>\<open>inject.scopes\<close>: a new, empty scope object.
\<close>

definition new_scope :: "world \<Rightarrow> sref \<times> world" where
  "new_scope w =
     (next_scope w,
      w\<lparr>heap := (heap w)(next_scope w := empty_scope), next_scope := Suc (next_scope w)\<rparr>)"

text \<open>
  Modelled from the spec: \<^verbatim>\<open>Scope.is_bound\<close> of \<^verbatim>\<open>inject.scopes\<close>: true iff a concrete instance is
  stored for the key in this scope.
\<close>

definition Scope_is_bound :: "world \<Rightarrow> sref \<Rightarrow> key \<Rightarrow> bool" where
  "Scope_is_bound w s k = (bindings (heap w s) k \<noteq> None)"

text \<open>
  Modelled from the spec: \<^verbatim>\<open>Scope.is_factory_bound\<close> of \<^verbatim>\<open>inject.scopes\<close>: true iff a factory is
  stored for the key in this scope.
\<close>

definition Scope_is_factory_bound :: "world \<Rightarrow> sref \<Rightarrow> key \<Rightarrow> bool" where
  "Scope_is_factory_bound w s k = (factories (heap w s) k \<noteq> None)"

text \<open>
  Modelled from the spec: \<^verbatim>\<open>Scope.bind\<close> of \<^verbatim>\<open>inject.scopes\<close>: stores the instance under the key and
  overwrites silently.
\<close>

definition Scope_bind :: "world \<Rightarrow> sref \<Rightarrow> key \<Rightarrow> val \<Rightarrow> world" where
  "Scope_bind w s k v =
     w\<lparr>heap := (heap w)(s := (heap w s)\<lparr>bindings := (bindings (heap w s))(k \<mapsto> v)\<rparr>)\<rparr>"

text \<open>
  Modelled from the spec: \<^verbatim>\<open>Scope.unbind\<close> of \<^verbatim>\<open>inject.scopes\<close>: removes the binding if present, and does
  nothing otherwise.
\<close>

definition Scope_unbind :: "world \<Rightarrow> sref \<Rightarrow> key \<Rightarrow> world" where
  "Scope_unbind w s k =
     w\<lparr>heap := (heap w)(s := (heap w s)\<lparr>bindings := (bindings (heap w s))(k := None)\<rparr>)\<rparr>"

text \<open>
  Modelled from the spec: \<^verbatim>\<open>Scope.bind_factory\<close> of \<^verbatim>\<open>inject.scopes\<close>: as \<^verbatim>\<open>bind\<close>, for the
  factories.
\<close>

definition Scope_bind_factory :: "world \<Rightarrow> sref \<Rightarrow> key \<Rightarrow> callable \<Rightarrow> world" where
  "Scope_bind_factory w s k f =
     w\<lparr>heap := (heap w)(s := (heap w s)\<lparr>factories := (factories (heap w s))(k \<mapsto> f)\<rparr>)\<rparr>"

text \<open>
  Modelled from the spec: \<^verbatim>\<open>Scope.unbind_factory\<close> of \<^verbatim>\<open>inject.scopes\<close>: as \<^verbatim>\<open>unbind\<close>, for the
  factories.
\<close>

definition Scope_unbind_factory :: "world \<Rightarrow> sref \<Rightarrow> key \<Rightarrow> world" where
  "Scope_unbind_factory w s k =
     w\<lparr>heap := (heap w)(s := (heap w s)\<lparr>factories := (factories (heap w s))(k := None)\<rparr>)\<rparr>"

text \<open>
  Modelled from the spec: \<^verbatim>\<open>Scope.get\<close> of \<^verbatim>\<open>inject.scopes\<close>: the stored instance if the key is bound;
  otherwise, if a factory is bound, its result, stored as a concrete binding before it is
  returned.
\<close>

definition Scope_get :: "world \<Rightarrow> sref \<Rightarrow> key \<Rightarrow> (error + val) \<times> world" where
  "Scope_get w s k =
     (case bindings (heap w s) k of
        Some v \<Rightarrow> (Inr v, w)
      | None \<Rightarrow>
          (case factories (heap w s) k of
             Some f \<Rightarrow>
               (case call f w of
                  (Inl e, w') \<Rightarrow> (Inl (Raised e), w')
                | (Inr v, w') \<Rightarrow> (Inr v, Scope_bind w' s k v))
           | None \<Rightarrow> (Inl (NothingBound k), w)))"

section \<open>The registered injector\<close>

definition cls_get_injector :: "world \<Rightarrow> error + iref" where
  "cls_get_injector w =
     (case cls_injector w of None \<Rightarrow> Inl NoInjectorRegistered | Some injector \<Rightarrow> Inr injector)"

definition cls_register :: "world \<Rightarrow> iref \<Rightarrow> (error + unit) \<times> world" where
  "cls_register w injector =
     (case cls_injector w of
        Some another \<Rightarrow> (Inl (InjectorAlreadyRegistered another), w)
      | None \<Rightarrow> (Inr (), w\<lparr>cls_injector := Some injector\<rparr>))"

text \<open>
  The argument of \<^verbatim>\<open>cls_unregister\<close> and \<^verbatim>\<open>cls_is_registered\<close> is \<^verbatim>\<open>None\<close> or an
  injector; an injector object is truthy (the class defines neither a length nor a truth
  value).
\<close>

definition cls_unregister :: "world \<Rightarrow> iref option \<Rightarrow> world" where
  "cls_unregister w injector =
     (if injector \<noteq> None \<and> cls_injector w \<noteq> injector then w
      else w\<lparr>cls_injector := None\<rparr>)"

definition cls_is_registered :: "world \<Rightarrow> iref option \<Rightarrow> bool" where
  "cls_is_registered w injector =
     (case injector of
        Some i \<Rightarrow> cls_injector w = Some i
      | None \<Rightarrow> cls_injector w \<noteq> None)"

definition register :: "world \<Rightarrow> iref \<Rightarrow> (error + unit) \<times> world" where
  "register w self = cls_register w self"

definition unregister :: "world \<Rightarrow> iref \<Rightarrow> world" where
  "unregister w self = cls_unregister w (Some self)"

definition is_registered :: "world \<Rightarrow> iref \<Rightarrow> bool" where
  "is_registered w self = cls_is_registered w (Some self)"

section \<open>Bindings\<close>

text \<open>
  Each loop over \<^verbatim>\<open>self._scopes_stack\<close> stops at the first scope that passes a test:
  that scope is \<open>find test stack\<close>.
\<close>

definition is_bound :: "world \<Rightarrow> iref \<Rightarrow> key \<Rightarrow> bool" where
  "is_bound w self type =
     (find (\<lambda>scope. Scope_is_bound w scope type) (scopes_stack (objs w self)) \<noteq> None)"

definition unbind :: "world \<Rightarrow> iref \<Rightarrow> key \<Rightarrow> world" where
  "unbind w self type =
     (case find (\<lambda>scope. Scope_is_bound w scope type) (scopes_stack (objs w self)) of
        Some scope \<Rightarrow> Scope_unbind w scope type
      | None \<Rightarrow> w)"

definition bind :: "world \<Rightarrow> iref \<Rightarrow> key \<Rightarrow> val \<Rightarrow> world" where
  "bind w self type to =
     (let w1 = (if is_bound w self type then unbind w self type else w)
      in Scope_bind w1 (app_scope (objs w1 self)) type to)"

definition is_factory_bound :: "world \<Rightarrow> iref \<Rightarrow> key \<Rightarrow> bool" where
  "is_factory_bound w self type =
     (find (\<lambda>scope. Scope_is_factory_bound w scope type) (scopes_stack (objs w self)) \<noteq> None)"

definition unbind_factory :: "world \<Rightarrow> iref \<Rightarrow> key \<Rightarrow> world" where
  "unbind_factory w self type =
     (case find (\<lambda>scope. Scope_is_factory_bound w scope type) (scopes_stack (objs w self)) of
        Some scope \<Rightarrow> Scope_unbind_factory w scope type
      | None \<Rightarrow> w)"

definition bind_factory :: "world \<Rightarrow> iref \<Rightarrow> key \<Rightarrow> callable \<Rightarrow> world" where
  "bind_factory w self type factory =
     (let w1 = (if is_factory_bound w self type then unbind_factory w self type else w)
      in Scope_bind_factory w1 (app_scope (objs w1 self)) type factory)"

text \<open>
  \<^verbatim>\<open>get\<close>. The parameter \<open>py\<close> stands for the Python classes behind the type keys:
  \<open>py type = None\<close> when \<^verbatim>\<open>callable(type)\<close> is false, and otherwise what the call
  \<^verbatim>\<open>type()\<close> does. The \<^verbatim>\<open>try\<close> around the call catches instances of
  \<^verbatim>\<open>Exception\<close>; any other exception leaves \<^verbatim>\<open>get\<close> as it was raised.
\<close>

definition get ::
  "(key \<rightharpoonup> callable) \<Rightarrow> world \<Rightarrow> iref \<Rightarrow> key \<Rightarrow> bool \<Rightarrow> (error + val) \<times> world" where
  "get py w self type none =
     (case find (\<lambda>scope. Scope_is_bound w scope type \<or> Scope_is_factory_bound w scope type)
             (scopes_stack (objs w self)) of
        Some scope \<Rightarrow> Scope_get w scope type
      | None \<Rightarrow>
          (case (if autobind (objs w self) then py type else None) of
             Some ctor \<Rightarrow>
               (case call ctor w of
                  (Inl e, w') \<Rightarrow>
                    if is_Exception e then (Inl (AutobindingFailed type e), w')
                    else (Inl (Raised e), w')
                | (Inr inst, w') \<Rightarrow> (Inr inst, bind w' self type inst))
           | None \<Rightarrow>
               if none then (Inr PyNone, w) else (Inl (NotBoundError type), w)))"

section \<open>Scope registration\<close>

text \<open>
  \<^verbatim>\<open>unbind_scope\<close>: \<^verbatim>\<open>unbind\<close> does not touch \<^verbatim>\<open>self._scopes\<close>, so the scope read
  after it is the one found by the membership test. \<^verbatim>\<open>list.remove\<close> deletes the first
  equal element and raises \<^verbatim>\<open>ValueError\<close> when there is none.
\<close>

definition unbind_scope :: "world \<Rightarrow> iref \<Rightarrow> key \<Rightarrow> (error + unit) \<times> world" where
  "unbind_scope w self scope_type =
     (case scopes (objs w self) scope_type of
        None \<Rightarrow> (Inr (), w)
      | Some scope \<Rightarrow>
          (let w1 = unbind w self scope_type;
               w2 = upd w1 self (\<lambda>ob. ob\<lparr>scopes := (scopes ob)(scope_type := None)\<rparr>)
           in if scope \<in> set (scopes_stack (objs w2 self))
              then (Inr (), upd w2 self
                      (\<lambda>ob. ob\<lparr>scopes_stack := remove1 scope (scopes_stack ob)\<rparr>))
              else (Inl ValueError, w2)))"

definition bind_scope :: "world \<Rightarrow> iref \<Rightarrow> key \<Rightarrow> sref \<Rightarrow> (error + unit) \<times> world" where
  "bind_scope w self scope_type scope =
     (case unbind_scope w self scope_type of
        (Inl e, w1) \<Rightarrow> (Inl e, w1)
      | (Inr _, w1) \<Rightarrow>
          (let w2 = bind w1 self scope_type (ScopeObj scope);
               w3 = upd w2 self (\<lambda>ob. ob\<lparr>scopes := (scopes ob)(scope_type \<mapsto> scope)\<rparr>);
               w4 = upd w3 self (\<lambda>ob. ob\<lparr>scopes_stack := scopes_stack ob @ [scope]\<rparr>)
           in (Inr (), w4)))"

definition is_scope_bound :: "world \<Rightarrow> iref \<Rightarrow> key \<Rightarrow> bool" where
  "is_scope_bound w self scope_type = (scopes (objs w self) scope_type \<noteq> None)"

section \<open>Construction and clearing\<close>

definition default_config :: "world \<Rightarrow> iref \<Rightarrow> (error + unit) \<times> world" where
  "default_config w self =
     (let w1 = bind w self Injector (InjectorObj self);
          (thread_scope, w2) = new_scope w1
      in case bind_scope w2 self ThreadScope thread_scope of
           (Inl e, w3) \<Rightarrow> (Inl e, w3)
         | (Inr _, w3) \<Rightarrow>
             (let (reqscope, w4) = new_scope w3
              in bind_scope w4 self RequestScope reqscope))"

definition init :: "world \<Rightarrow> iref \<Rightarrow> (error + unit) \<times> world" where
  "init w self =
     (let w1 = upd w self (\<lambda>ob. ob\<lparr>scopes := Map.empty, scopes_stack := []\<rparr>);
          (a, w2) = new_scope w1;
          w3 = upd w2 self (\<lambda>ob. ob\<lparr>app_scope := a\<rparr>)
      in case bind_scope w3 self ApplicationScope a of
           (Inl e, w4) \<Rightarrow> (Inl e, w4)
         | (Inr _, w4) \<Rightarrow> default_config w4 self)"

text \<open>
  \<^verbatim>\<open>clear\<close> sets the three attributes to \<^verbatim>\<open>None\<close> and calls \<^verbatim>\<open>_init\<close>, which
  assigns all three again before reading any of them.
\<close>

definition clear :: "world \<Rightarrow> iref \<Rightarrow> (error + unit) \<times> world" where
  "clear w self = init w self"

text \<open>
  \<^verbatim>\<open>__init__\<close>: a new injector object; \<^verbatim>\<open>echo\<close> only configures logging, which is
  not part of the state.
\<close>

definition new_Injector :: "world \<Rightarrow> bool \<Rightarrow> bool \<Rightarrow> (error + iref) \<times> world" where
  "new_Injector w autobind_arg echo =
     (let self = next_injector w;
          w1 = (upd w self (\<lambda>ob. ob\<lparr>autobind := autobind_arg\<rparr>))
                 \<lparr>next_injector := Suc self\<rparr>
      in case init w1 self of
           (Inl e, w2) \<Rightarrow> (Inl e, w2)
         | (Inr _, w2) \<Rightarrow> (Inr self, w2))"

definition create :: "world \<Rightarrow> bool \<Rightarrow> bool \<Rightarrow> (error + iref) \<times> world" where
  "create w autobind_arg echo =
     (case new_Injector w autobind_arg echo of
        (Inl e, w1) \<Rightarrow> (Inl e, w1)
      | (Inr injector, w1) \<Rightarrow>
          (case register w1 injector of
             (Inl e, w2) \<Rightarrow> (Inl e, w2)
           | (Inr _, w2) \<Rightarrow> (Inr injector, w2)))"

definition get_instance ::
  "(key \<rightharpoonup> callable) \<Rightarrow> world \<Rightarrow> key \<Rightarrow> bool \<Rightarrow> (error + val) \<times> world" where
  "get_instance py w type none =
     (case cls_get_injector w of
        Inl e \<Rightarrow> (Inl e, w)
      | Inr injector \<Rightarrow> get py w injector type none)"

text \<open>The state before any object exists, and the state after \<^verbatim>\<open>Injector()\<close> in it.\<close>

definition world0 :: world where
  "world0 =
     \<lparr>cls_injector = None,
      objs = (\<lambda>_. \<lparr>autobind = False, scopes = Map.empty, scopes_stack = [], app_scope = 0\<rparr>),
      heap = (\<lambda>_. empty_scope),
      next_injector = 0, next_scope = 0, next_obj = 0\<rparr>"

definition world1 :: world where
  "world1 = snd (new_Injector world0 True False)"

section \<open>Sequences of operations\<close>

text \<open>
  The methods of an injector that change state, as a caller may issue them one after
  another on the injector \<open>self\<close>; an operation that raises leaves the state it had
  reached, and the caller goes on. The queries (\<^verbatim>\<open>is_bound\<close>,
  \<^verbatim>\<open>is_factory_bound\<close>, \<^verbatim>\<open>is_scope_bound\<close>, \<^verbatim>\<open>is_registered\<close>) change
  nothing and are left out.
\<close>

datatype op =
    Bind key val
  | Unbind key
  | Get key bool
  | BindFactory key callable
  | UnbindFactory key
  | BindScope key sref
  | UnbindScope key
  | Clear
  | Register
  | Unregister

definition apply_op :: "(key \<rightharpoonup> callable) \<Rightarrow> iref \<Rightarrow> world \<Rightarrow> op \<Rightarrow> world" where
  "apply_op py self w c =
     (case c of
        Bind type to \<Rightarrow> bind w self type to
      | Unbind type \<Rightarrow> unbind w self type
      | Get type none \<Rightarrow> snd (get py w self type none)
      | BindFactory type factory \<Rightarrow> bind_factory w self type factory
      | UnbindFactory type \<Rightarrow> unbind_factory w self type
      | BindScope scope_type scope \<Rightarrow> snd (bind_scope w self scope_type scope)
      | UnbindScope scope_type \<Rightarrow> snd (unbind_scope w self scope_type)
      | Clear \<Rightarrow> snd (clear w self)
      | Register \<Rightarrow> snd (register w self)
      | Unregister \<Rightarrow> unregister w self)"

definition run_ops :: "(key \<rightharpoonup> callable) \<Rightarrow> iref \<Rightarrow> world \<Rightarrow> op list \<Rightarrow> world" where
  "run_ops py self w cs = foldl (apply_op py self) w cs"

definition on_application_scope :: "op \<Rightarrow> bool" where
  "on_application_scope c =
     (case c of
        BindScope scope_type _ \<Rightarrow> scope_type = ApplicationScope
      | UnbindScope scope_type \<Rightarrow> scope_type = ApplicationScope
      | _ \<Rightarrow> False)"

text \<open>
  Operations that rebind or unbind the key \<open>T\<close> (\<^verbatim>\<open>bind_scope\<close> and
  \<^verbatim>\<open>unbind_scope\<close> bind and unbind their key, \<^verbatim>\<open>clear\<close> unbinds every key), or
  that bind or unbind the application scope \<open>app\<close> as a scope.
\<close>

definition disturbs :: "key \<Rightarrow> sref \<Rightarrow> op \<Rightarrow> bool" where
  "disturbs T app c =
     (case c of
        Bind type _ \<Rightarrow> type = T
      | Unbind type \<Rightarrow> type = T
      | BindScope scope_type scope \<Rightarrow>
          scope_type = T \<or> scope_type = ApplicationScope \<or> scope = app
      | UnbindScope scope_type \<Rightarrow> scope_type = T \<or> scope_type = ApplicationScope
      | Clear \<Rightarrow> True
      | _ \<Rightarrow> False)"

section \<open>Invariants\<close>

text \<open>
  The scope stack and the scope table hold the same scopes, as often: a scope occurs in
  the stack once for every key it is registered under.
\<close>

definition in_sync :: "injector_obj \<Rightarrow> bool" where
  "in_sync ob =
     (finite (dom (scopes ob)) \<and>
      (\<forall>s. count_list (scopes_stack ob) s = card {k. scopes ob k = Some s}))"

text \<open>
  The application scope of the injector is the scope registered under
  \<^verbatim>\<open>ApplicationScope\<close> and is in the stack.
\<close>

definition app_present :: "injector_obj \<Rightarrow> bool" where
  "app_present ob =
     (scopes ob ApplicationScope = Some (app_scope ob) \<and>
      app_scope ob \<in> set (scopes_stack ob))"

text \<open>
  The key is bound to \<open>x\<close> in the application scope, and the application scope is the
  first scope of the stack.
\<close>

definition bound_first :: "world \<Rightarrow> iref \<Rightarrow> key \<Rightarrow> val \<Rightarrow> bool" where
  "bound_first w self T x =
     (case scopes_stack (objs w self) of
        [] \<Rightarrow> False
      | s # _ \<Rightarrow> s = app_scope (objs w self) \<and> bindings (heap w s) T = Some x)"

text \<open>The application scope is registered as a scope under no other key.\<close>

definition app_only :: "injector_obj \<Rightarrow> bool" where
  "app_only ob = (\<forall>k. scopes ob k = Some (app_scope ob) \<longrightarrow> k = ApplicationScope)"

section \<open>Basic facts\<close>

lemmas scope_defs = Scope_bind_def Scope_unbind_def Scope_is_bound_def Scope_bind_factory_def
  Scope_unbind_factory_def Scope_is_factory_bound_def empty_scope_def new_scope_def

lemmas init_defs = new_Injector_def clear_def init_def default_config_def bind_scope_def
  unbind_scope_def bind_def unbind_def is_bound_def upd_def Let_def

lemmas reg_defs = register_def unregister_def is_registered_def cls_register_def
  cls_unregister_def cls_is_registered_def

lemmas get_defs = get_def Scope_get_def call_def is_factory_bound_def

text \<open>The injector that \<^verbatim>\<open>Injector()\<close> builds in the empty state.\<close>

lemma world1_eval:
  "fst (new_Injector world0 True False) = Inr 0"
  "cls_injector world1 = None"
  "autobind (objs world1 0) = True"
  "scopes_stack (objs world1 0) = [0, Suc 0, Suc (Suc 0)]"
  "app_scope (objs world1 0) = 0"
  "scopes (objs world1 0) =
     [ApplicationScope \<mapsto> 0, ThreadScope \<mapsto> Suc 0, RequestScope \<mapsto> Suc (Suc 0)]"
  "bindings (heap world1 0) =
     [ApplicationScope \<mapsto> ScopeObj 0, Injector \<mapsto> InjectorObj 0,
      ThreadScope \<mapsto> ScopeObj (Suc 0), RequestScope \<mapsto> ScopeObj (Suc (Suc 0))]"
  "bindings (heap world1 (Suc 0)) = Map.empty"
  "bindings (heap world1 (Suc (Suc 0))) = Map.empty"
  "factories (heap world1 s) = Map.empty"
  by (simp_all add: world1_def world0_def init_defs scope_defs)

lemma find_none: "(find P xs = None) = (\<forall>x\<in>set xs. \<not> P x)"
  by (auto simp: find_None_iff)

lemma init_cls_injector: "cls_injector (snd (init w self)) = cls_injector w"
  by (simp add: init_defs scope_defs)

lemma find_only:
  "a \<in> set xs \<Longrightarrow> \<forall>x\<in>set xs. P x = (x = a) \<Longrightarrow> find P xs = Some a"
  by (induction xs) auto

lemma call_frame:
  "call c w = (r, w') \<Longrightarrow>
     heap w' = heap w \<and> objs w' = objs w \<and> cls_injector w' = cls_injector w"
  by (cases c) (auto simp: call_def)

lemma Scope_get_bound:
  "bindings (heap w s) k = Some v \<Longrightarrow> Scope_get w s k = (Inr v, w)"
  by (simp add: Scope_get_def)

section \<open>Failed autobinding\<close>




text \<open>
  Claim C9, as stated, at a key whose call raises an exception that is not an instance
  of \<^verbatim>\<open>Exception\<close>: \<^verbatim>\<open>get\<close> with \<^verbatim>\<open>none=True\<close> fails with that exception
  itself, not with \<^verbatim>\<open>AutobindingFailed\<close>.
\<close>

theorem autobinding_failure_none_flag_counterexample:
  "\<not> is_bound world1 0 (Type 7) \<and> \<not> is_factory_bound world1 0 (Type 7) \<and>
   autobind (objs world1 0) \<and>
   fst (call (Raises (BaseException 3)) world1) = Inl (BaseException 3) \<and>
   get [Type 7 \<mapsto> Raises (BaseException 3)] world1 0 (Type 7) True =
     (Inl (Raised (BaseException 3)), world1) \<and>
   get [Type 7 \<mapsto> Raises (BaseException 3)] world1 0 (Type 7) True \<noteq>
     (Inl (AutobindingFailed (Type 7) (BaseException 3)), world1)"
  by (simp add: is_bound_def is_factory_bound_def get_def call_def is_Exception_def
        world1_eval scope_defs)

text \<open>
  Claim C9, amended. With no binding and no factory for the key in any scope,
  autobinding on and a key whose call raises \<open>e\<close>, \<^verbatim>\<open>get\<close> with \<^verbatim>\<open>none=True\<close>
  fails all the same: with \<^verbatim>\<open>AutobindingFailed\<close> if \<open>e\<close> is an instance of
  \<^verbatim>\<open>Exception\<close>, and with \<open>e\<close> itself otherwise. The flag only replaces the
  \<^verbatim>\<open>NotBoundError\<close>: in the same state, the same key taken as not callable gives
  \<^verbatim>\<open>None\<close>.
\<close>

theorem autobinding_failure_ignores_none_flag:
  assumes "\<forall>s\<in>set (scopes_stack (objs w self)).
             \<not> Scope_is_bound w s T \<and> \<not> Scope_is_factory_bound w s T"
    and "autobind (objs w self)"
    and "py T = Some (Raises e)"
  shows "get py w self T True =
           (if is_Exception e then Inl (AutobindingFailed T e) else Inl (Raised e), w) \<and>
         get (py(T := None)) w self T True = (Inr PyNone, w)"
proof -
  have f: "find (\<lambda>scope. Scope_is_bound w scope T \<or> Scope_is_factory_bound w scope T)
             (scopes_stack (objs w self)) = None"
    using assms(1) by (simp add: find_none)
  show ?thesis
    using assms(2,3) by (simp add: get_def f call_def)
qed

theorem autobinding_failure_ignores_none_flag_witness:
  "get [Type 7 \<mapsto> Raises (Exception 3)] world1 0 (Type 7) True =
     (Inl (AutobindingFailed (Type 7) (Exception 3)), world1) \<and>
   get ([Type 7 \<mapsto> Raises (Exception 3)](Type 7 := None)) world1 0 (Type 7) True =
     (Inr PyNone, world1)"
proof -
  have unbound: "\<forall>s\<in>set (scopes_stack (objs world1 0)).
      \<not> Scope_is_bound world1 s (Type 7) \<and> \<not> Scope_is_factory_bound world1 s (Type 7)"
    by (simp add: world1_eval scope_defs)
  have auto_on: "autobind (objs world1 0)"
    by (simp add: world1_eval)
  have ctor: "[Type 7 \<mapsto> Raises (Exception 3)] (Type 7) = Some (Raises (Exception 3))"
    by simp
  have exc: "is_Exception (Exception 3)"
    by (simp add: is_Exception_def)
  show ?thesis
    using autobinding_failure_ignores_none_flag
            [where py = "[Type 7 \<mapsto> Raises (Exception 3)]", OF unbound auto_on ctor]
    unfolding if_P [OF exc] .
qed

section \<open>Keys that are not bound\<close>




section \<open>Autobinding\<close>

text \<open>
  Claim C5, as stated, on a new injector after \<^verbatim>\<open>unbind_scope(ApplicationScope)\<close>,
  and on a new injector after \<^verbatim>\<open>bind_scope(ApplicationScope, s)\<close> with a new scope
  \<open>s\<close>: the key has no binding and no factory, autobinding is on, the key constructs an
  instance, and two consecutive calls of \<^verbatim>\<open>get\<close> return two different instances.
\<close>

theorem autobinding_memoizes_counterexample:
  "autobind (objs (snd (unbind_scope world1 0 ApplicationScope)) 0) \<and>
   \<not> is_bound (snd (unbind_scope world1 0 ApplicationScope)) 0 (Type 7) \<and>
   \<not> is_factory_bound (snd (unbind_scope world1 0 ApplicationScope)) 0 (Type 7) \<and>
   fst (get [Type 7 \<mapsto> Constructs] (snd (unbind_scope world1 0 ApplicationScope))
          0 (Type 7) False) = Inr (Obj 0) \<and>
   fst (get [Type 7 \<mapsto> Constructs]
          (snd (get [Type 7 \<mapsto> Constructs] (snd (unbind_scope world1 0 ApplicationScope))
                  0 (Type 7) False))
          0 (Type 7) False) = Inr (Obj 1) \<and>
   is_scope_bound
     (snd (bind_scope (snd (new_scope world1)) 0 ApplicationScope (fst (new_scope world1))))
     0 ApplicationScope \<and>
   fst (get [Type 7 \<mapsto> Constructs]
          (snd (bind_scope (snd (new_scope world1)) 0 ApplicationScope
                  (fst (new_scope world1))))
          0 (Type 7) False) = Inr (Obj 0) \<and>
   fst (get [Type 7 \<mapsto> Constructs]
          (snd (get [Type 7 \<mapsto> Constructs]
                  (snd (bind_scope (snd (new_scope world1)) 0 ApplicationScope
                          (fst (new_scope world1))))
                  0 (Type 7) False))
          0 (Type 7) False) = Inr (Obj 1)"
  by (simp add: is_scope_bound_def world1_def world0_def init_defs scope_defs get_defs)

text \<open>
  Claim C5, amended. With no binding and no factory for the key in any scope,
  autobinding on, a key whose call returns an instance, and the application scope of
  the injector in its scope stack, the first \<^verbatim>\<open>get\<close> returns that instance and stores
  it in the application scope, and a second \<^verbatim>\<open>get\<close> returns the same instance and
  changes nothing.
\<close>

theorem autobinding_memoizes:
  assumes unbound: "\<forall>s\<in>set (scopes_stack (objs w self)).
             \<not> Scope_is_bound w s T \<and> \<not> Scope_is_factory_bound w s T"
    and auto_on: "autobind (objs w self)"
    and ctor: "py T = Some c"
    and ok: "call c w = (Inr inst, w')"
    and app: "app_scope (objs w self) \<in> set (scopes_stack (objs w self))"
  shows "get py w self T none = (Inr inst, Scope_bind w' (app_scope (objs w self)) T inst) \<and>
         get py (snd (get py w self T none)) self T none =
           (Inr inst, snd (get py w self T none))"
proof -
  let ?a = "app_scope (objs w self)"
  let ?w2 = "Scope_bind w' ?a T inst"
  have fr: "heap w' = heap w" "objs w' = objs w"
    using call_frame [OF ok] by simp_all
  have f: "find (\<lambda>scope. Scope_is_bound w scope T \<or> Scope_is_factory_bound w scope T)
             (scopes_stack (objs w self)) = None"
    using unbound by (simp add: find_none)
  have nb: "\<not> is_bound w' self T"
    using unbound by (simp add: is_bound_def find_none fr Scope_is_bound_def)
  have b: "bind w' self T inst = ?w2"
    using nb by (simp add: bind_def fr)
  have first: "get py w self T none = (Inr inst, ?w2)"
    using auto_on ctor ok by (simp add: get_def f b)
  have stack2: "scopes_stack (objs ?w2 self) = scopes_stack (objs w self)"
    by (simp add: Scope_bind_def fr)
  have only: "\<forall>s\<in>set (scopes_stack (objs w self)).
      (Scope_is_bound ?w2 s T \<or> Scope_is_factory_bound ?w2 s T) = (s = ?a)"
    using unbound by (simp add: scope_defs fr)
  have f2: "find (\<lambda>scope. Scope_is_bound ?w2 scope T \<or> Scope_is_factory_bound ?w2 scope T)
             (scopes_stack (objs ?w2 self)) = Some ?a"
    unfolding stack2 by (rule find_only [OF app only])
  have "bindings (heap ?w2 ?a) T = Some inst"
    by (simp add: Scope_bind_def)
  then have second: "get py ?w2 self T none = (Inr inst, ?w2)"
    by (simp add: get_def f2 Scope_get_bound)
  show ?thesis
    using first second by simp
qed

theorem autobinding_memoizes_witness:
  "get [Type 7 \<mapsto> Constructs] world1 0 (Type 7) False =
     (Inr (Obj 0), Scope_bind (world1\<lparr>next_obj := Suc (next_obj world1)\<rparr>) 0 (Type 7) (Obj 0)) \<and>
   get [Type 7 \<mapsto> Constructs] (snd (get [Type 7 \<mapsto> Constructs] world1 0 (Type 7) False))
       0 (Type 7) False =
     (Inr (Obj 0), snd (get [Type 7 \<mapsto> Constructs] world1 0 (Type 7) False))"
proof -
  have unbound: "\<forall>s\<in>set (scopes_stack (objs world1 0)).
      \<not> Scope_is_bound world1 s (Type 7) \<and> \<not> Scope_is_factory_bound world1 s (Type 7)"
    by (simp add: world1_eval scope_defs)
  have auto_on: "autobind (objs world1 0)"
    by (simp add: world1_eval)
  have ctor: "[Type 7 \<mapsto> Constructs] (Type 7) = Some Constructs"
    by simp
  have ok: "call Constructs world1 = (Inr (Obj 0), world1\<lparr>next_obj := Suc (next_obj world1)\<rparr>)"
    by (simp add: call_def world1_def world0_def init_defs scope_defs)
  have app: "app_scope (objs world1 0) \<in> set (scopes_stack (objs world1 0))"
    by (simp add: world1_eval)
  show ?thesis
    using autobinding_memoizes [where py = "[Type 7 \<mapsto> Constructs]" and none = False, OF unbound auto_on ctor ok app]
    unfolding world1_eval(5) .
qed

section \<open>Registration\<close>

text \<open>
  Claim C6. \<^verbatim>\<open>register\<close> fails with \<^verbatim>\<open>InjectorAlreadyRegistered\<close> carrying the
  registered injector, and changes nothing, whenever an injector is registered;
  otherwise it registers the caller. \<^verbatim>\<open>cls_unregister\<close> given an injector while a
  different one is registered changes nothing; in every other case the slot is empty
  afterwards and nothing else has changed. Two injectors that are both registered are
  the same injector.
\<close>

theorem registration_state_machine:
  "(cls_injector w = Some j \<longrightarrow> register w i = (Inl (InjectorAlreadyRegistered j), w)) \<and>
   (cls_injector w = None \<longrightarrow> register w i = (Inr (), w\<lparr>cls_injector := Some i\<rparr>)) \<and>
   (cls_injector w = Some j \<and> j \<noteq> i \<longrightarrow> cls_unregister w (Some i) = w) \<and>
   (\<not> (\<exists>a b. arg = Some a \<and> cls_injector w = Some b \<and> b \<noteq> a) \<longrightarrow>
      cls_unregister w arg = w\<lparr>cls_injector := None\<rparr>) \<and>
   (is_registered w i \<and> is_registered w j \<longrightarrow> i = j)"
  by (cases arg; cases "cls_injector w") (auto simp: reg_defs)

theorem registration_state_machine_witness:
  "register (world1\<lparr>cls_injector := Some 0\<rparr>) 1 =
     (Inl (InjectorAlreadyRegistered 0), world1\<lparr>cls_injector := Some 0\<rparr>) \<and>
   register world1 0 = (Inr (), world1\<lparr>cls_injector := Some 0\<rparr>) \<and>
   cls_unregister (world1\<lparr>cls_injector := Some 0\<rparr>) (Some 1) =
     world1\<lparr>cls_injector := Some 0\<rparr> \<and>
   cls_injector (cls_unregister (world1\<lparr>cls_injector := Some 0\<rparr>) (Some 0)) = None \<and>
   cls_injector (cls_unregister (world1\<lparr>cls_injector := Some 0\<rparr>) None) = None \<and>
   is_registered (world1\<lparr>cls_injector := Some 0\<rparr>) 0"
  using registration_state_machine [of "world1\<lparr>cls_injector := Some 0\<rparr>" 0 1 "Some 0"]
    registration_state_machine [of "world1\<lparr>cls_injector := Some 0\<rparr>" 0 1 "None"]
    registration_state_machine [of "world1" 0 0 "None"]
  by (simp add: world1_eval is_registered_def cls_is_registered_def)

text \<open>
  Claim C10. \<^verbatim>\<open>clear\<close> and the constructor leave the class attribute
  \<^verbatim>\<open>Injector.injector\<close> as it was: an injector is registered after either of them
  exactly when it was registered before.
\<close>

theorem clear_and_construct_keep_registration:
  "cls_injector (snd (clear w self)) = cls_injector w \<and>
   is_registered (snd (clear w self)) i = is_registered w i \<and>
   cls_injector (snd (new_Injector w autobind_arg echo)) = cls_injector w \<and>
   is_registered (snd (new_Injector w autobind_arg echo)) i = is_registered w i"
proof -
  have c: "cls_injector (snd (clear w self)) = cls_injector w"
    by (simp add: clear_def init_cls_injector)
  have n: "cls_injector (snd (new_Injector w autobind_arg echo)) = cls_injector w"
    by (simp add: init_defs scope_defs)
  show ?thesis
    using c n by (simp add: is_registered_def cls_is_registered_def)
qed

theorem clear_and_construct_keep_registration_witness:
  "is_registered (snd (register world1 0)) 0 \<and>
   is_registered (snd (clear (snd (register world1 0)) 0)) 0 \<and>
   is_registered (snd (new_Injector (snd (register world1 0)) True False)) 0"
  using clear_and_construct_keep_registration [of "snd (register world1 0)" 0 0 True False]
  by (simp add: reg_defs world1_eval)

section \<open>The application scope\<close>

lemma count_list_remove1:
  "count_list (remove1 x xs) y =
     (if x = y \<and> x \<in> set xs then count_list xs y - 1 else count_list xs y)"
  by (induction xs) auto

lemma keys_del:
  "{k'. (m(k := None)) k' = Some s} = {k'. m k' = Some s} - {k}"
  by auto

lemma keys_add:
  "{k'. (m(k \<mapsto> s)) k' = Some s'} =
     (if s' = s then insert k {k'. m k' = Some s'} else {k'. m k' = Some s'} - {k})"
  by auto

lemma keys_finite: "finite (dom m) \<Longrightarrow> finite {k. m k = Some s}"
  by (rule finite_subset [of _ "dom m"]) auto

lemma in_sync_mem:
  assumes "in_sync ob" "scopes ob k = Some s"
  shows "s \<in> set (scopes_stack ob)"
proof -
  have "k \<in> {k. scopes ob k = Some s}" using assms(2) by simp
  moreover have "finite {k. scopes ob k = Some s}"
    using assms(1) by (simp add: in_sync_def keys_finite)
  ultimately have "card {k. scopes ob k = Some s} \<noteq> 0"
    by auto
  then have "count_list (scopes_stack ob) s \<noteq> 0"
    using assms(1) by (simp add: in_sync_def)
  then show ?thesis
    by (simp add: count_list_0_iff)
qed

lemma card_keys_del:
  assumes "finite (dom m)" "m k = Some s"
  shows "card {k'. (m(k := None)) k' = Some t} =
           (if s = t then card {k'. m k' = Some t} - 1 else card {k'. m k' = Some t})"
proof -
  have "card ({k'. m k' = Some t} - {k}) =
          (if s = t then card {k'. m k' = Some t} - 1 else card {k'. m k' = Some t})"
    using assms(2) keys_finite [OF assms(1), of t] by (auto simp: card_Diff_singleton_if)
  then show ?thesis
    by (simp only: keys_del)
qed

lemma card_keys_add:
  assumes "finite (dom m)" "m k = None"
  shows "card {k'. (m(k \<mapsto> s)) k' = Some t} =
           (if s = t then Suc (card {k'. m k' = Some t}) else card {k'. m k' = Some t})"
proof -
  have notin: "k \<notin> {k'. m k' = Some t}"
    using assms(2) by simp
  have "card (if t = s then insert k {k'. m k' = Some t} else {k'. m k' = Some t} - {k}) =
          (if s = t then Suc (card {k'. m k' = Some t}) else card {k'. m k' = Some t})"
    using notin keys_finite [OF assms(1), of t] by auto
  then show ?thesis
    by (simp only: keys_add)
qed

lemma in_sync_del:
  assumes "in_sync ob" "scopes ob k = Some s"
  shows "in_sync (ob\<lparr>scopes := (scopes ob)(k := None),
                     scopes_stack := remove1 s (scopes_stack ob)\<rparr>)"
  unfolding in_sync_def
proof (intro conjI allI)
  have fin: "finite (dom (scopes ob))" using assms(1) by (simp add: in_sync_def)
  have mem: "s \<in> set (scopes_stack ob)" by (rule in_sync_mem [OF assms])
  show "finite (dom (scopes (ob\<lparr>scopes := (scopes ob)(k := None),
                     scopes_stack := remove1 s (scopes_stack ob)\<rparr>)))"
    using fin by simp
  fix t
  have cnt: "count_list (scopes_stack ob) t = card {k. scopes ob k = Some t}"
    using assms(1) by (simp add: in_sync_def)
  show "count_list (scopes_stack (ob\<lparr>scopes := (scopes ob)(k := None),
                     scopes_stack := remove1 s (scopes_stack ob)\<rparr>)) t =
        card {ka. scopes (ob\<lparr>scopes := (scopes ob)(k := None),
                     scopes_stack := remove1 s (scopes_stack ob)\<rparr>) ka = Some t}"
    using card_keys_del [OF fin assms(2), of t] mem cnt
    by (simp add: count_list_remove1 del: fun_upd_apply)
qed

lemma in_sync_add:
  assumes "in_sync ob" "scopes ob k = None"
  shows "in_sync (ob\<lparr>scopes := (scopes ob)(k \<mapsto> s),
                     scopes_stack := scopes_stack ob @ [s]\<rparr>)"
  unfolding in_sync_def
proof (intro conjI allI)
  have fin: "finite (dom (scopes ob))" using assms(1) by (simp add: in_sync_def)
  show "finite (dom (scopes (ob\<lparr>scopes := (scopes ob)(k \<mapsto> s),
                     scopes_stack := scopes_stack ob @ [s]\<rparr>)))"
    using fin by simp
  fix t
  have cnt: "count_list (scopes_stack ob) t = card {k. scopes ob k = Some t}"
    using assms(1) by (simp add: in_sync_def)
  show "count_list (scopes_stack (ob\<lparr>scopes := (scopes ob)(k \<mapsto> s),
                     scopes_stack := scopes_stack ob @ [s]\<rparr>)) t =
        card {ka. scopes (ob\<lparr>scopes := (scopes ob)(k \<mapsto> s),
                     scopes_stack := scopes_stack ob @ [s]\<rparr>) ka = Some t}"
    using card_keys_add [OF fin assms(2), of s t] cnt
    by (simp del: fun_upd_apply)
qed

text \<open>Removing the scope of another key leaves the application scope in the stack.\<close>

lemma app_present_del:
  assumes "in_sync ob" "app_present ob" "scopes ob k = Some s" "k \<noteq> ApplicationScope"
  shows "app_present (ob\<lparr>scopes := (scopes ob)(k := None),
                         scopes_stack := remove1 s (scopes_stack ob)\<rparr>)"
proof (cases "s = app_scope ob")
  case False
  then show ?thesis
    using assms(2,4) by (simp add: app_present_def)
next
  case True
  have fin: "finite {k'. scopes ob k' = Some s}"
    using assms(1) by (simp add: in_sync_def keys_finite)
  have "{k, ApplicationScope} \<subseteq> {k'. scopes ob k' = Some s}"
    using assms(2,3) True by (simp add: app_present_def)
  then have "card {k, ApplicationScope} \<le> card {k'. scopes ob k' = Some s}"
    using fin by (rule card_mono [rotated])
  then have "2 \<le> count_list (scopes_stack ob) s"
    using assms(1,4) by (simp add: in_sync_def)
  then have "count_list (remove1 s (scopes_stack ob)) s \<noteq> 0"
    by (simp add: count_list_remove1)
  then have "s \<in> set (remove1 s (scopes_stack ob))"
    by (metis count_list_0_iff)
  then show ?thesis
    using assms(2,4) True by (simp add: app_present_def)
qed


lemma app_present_add:
  assumes "app_present ob" "k \<noteq> ApplicationScope"
  shows "app_present (ob\<lparr>scopes := (scopes ob)(k \<mapsto> s),
                         scopes_stack := scopes_stack ob @ [s]\<rparr>)"
  using assms by (simp add: app_present_def)

subsection \<open>What each operation does to the attributes of the injector\<close>

lemma objs_Scope_ops:
  "objs (Scope_bind w s k v) = objs w"
  "objs (Scope_unbind w s k) = objs w"
  "objs (Scope_bind_factory w s k f) = objs w"
  "objs (Scope_unbind_factory w s k) = objs w"
  by (simp_all add: scope_defs)

lemma objs_unbind: "objs (unbind w self T) = objs w"
  by (simp add: unbind_def objs_Scope_ops split: option.split)

lemma objs_bind: "objs (bind w self T x) = objs w"
  by (simp add: bind_def Let_def objs_unbind objs_Scope_ops)

lemma objs_unbind_factory: "objs (unbind_factory w self T) = objs w"
  by (simp add: unbind_factory_def objs_Scope_ops split: option.split)

lemma objs_bind_factory: "objs (bind_factory w self T f) = objs w"
  by (simp add: bind_factory_def Let_def objs_unbind_factory objs_Scope_ops)

lemma objs_call: "objs (snd (call c w)) = objs w"
  by (cases c) (simp_all add: call_def)

lemma objs_Scope_get: "objs (snd (Scope_get w s k)) = objs w"
proof -
  have "objs (snd (case call f w of
                     (Inl e, w') \<Rightarrow> (Inl (Raised e), w')
                   | (Inr v, w') \<Rightarrow> (Inr v, Scope_bind w' s k v))) = objs w" for f
    using objs_call [of f w]
    by (cases "call f w") (auto simp: objs_Scope_ops split: sum.split)
  then show ?thesis
    by (simp add: Scope_get_def split: option.split)
qed

lemma objs_get: "objs (snd (get py w self T none)) = objs w"
proof -
  have c: "\<And>c r w'. call c w = (r, w') \<Longrightarrow> objs w' = objs w"
    using call_frame by blast
  show ?thesis
    by (auto simp: get_def objs_Scope_get objs_bind c
             split: option.split prod.split sum.split)
qed

lemma objs_register: "objs (snd (register w self)) = objs w"
  by (simp add: reg_defs split: option.split)

lemma objs_unregister: "objs (unregister w self) = objs w"
  by (simp add: reg_defs)

lemma unbind_scope_obj:
  "objs (snd (unbind_scope w self k)) self =
     (case scopes (objs w self) k of
        None \<Rightarrow> objs w self
      | Some s \<Rightarrow>
          if s \<in> set (scopes_stack (objs w self))
          then (objs w self)\<lparr>scopes := (scopes (objs w self))(k := None),
                              scopes_stack := remove1 s (scopes_stack (objs w self))\<rparr>
          else (objs w self)\<lparr>scopes := (scopes (objs w self))(k := None)\<rparr>)"
  by (simp add: unbind_scope_def upd_def Let_def objs_unbind split: option.split)

lemma unbind_scope_ok:
  assumes "in_sync (objs w self)"
  shows "fst (unbind_scope w self k) = Inr ()"
proof (cases "scopes (objs w self) k")
  case None
  then show ?thesis by (simp add: unbind_scope_def)
next
  case (Some s)
  then have "s \<in> set (scopes_stack (objs w self))"
    using assms by (simp add: in_sync_mem)
  then show ?thesis
    using Some by (simp add: unbind_scope_def upd_def Let_def objs_unbind)
qed

lemma unbind_scope_keeps:
  assumes "in_sync (objs w self)" "app_present (objs w self)" "k \<noteq> ApplicationScope"
  shows "in_sync (objs (snd (unbind_scope w self k)) self) \<and>
         app_present (objs (snd (unbind_scope w self k)) self)"
proof (cases "scopes (objs w self) k")
  case None
  then show ?thesis using assms by (simp add: unbind_scope_obj)
next
  case (Some s)
  then have "s \<in> set (scopes_stack (objs w self))"
    using assms(1) by (simp add: in_sync_mem)
  then show ?thesis
    using Some in_sync_del [OF assms(1) Some] app_present_del [OF assms(1,2) Some assms(3)]
    by (simp add: unbind_scope_obj)
qed

lemma unbind_scope_removes: "scopes (objs (snd (unbind_scope w self k)) self) k = None"
  by (simp add: unbind_scope_obj split: option.split)

lemma bind_scope_obj:
  assumes "fst (unbind_scope w self k) = Inr ()"
  shows "objs (snd (bind_scope w self k s)) self =
           (objs (snd (unbind_scope w self k)) self)
             \<lparr>scopes := (scopes (objs (snd (unbind_scope w self k)) self))(k \<mapsto> s),
              scopes_stack := scopes_stack (objs (snd (unbind_scope w self k)) self) @ [s]\<rparr>"
  using assms
  by (cases "unbind_scope w self k") (simp add: bind_scope_def upd_def Let_def objs_bind)

lemma bind_scope_keeps:
  assumes "in_sync (objs w self)" "app_present (objs w self)" "k \<noteq> ApplicationScope"
  shows "in_sync (objs (snd (bind_scope w self k s)) self) \<and>
         app_present (objs (snd (bind_scope w self k s)) self)"
proof -
  let ?ob = "objs (snd (unbind_scope w self k)) self"
  have ok: "fst (unbind_scope w self k) = Inr ()"
    by (rule unbind_scope_ok [OF assms(1)])
  have inv: "in_sync ?ob" "app_present ?ob"
    using unbind_scope_keeps [OF assms] by simp_all
  have none: "scopes ?ob k = None"
    by (rule unbind_scope_removes)
  show ?thesis
    using in_sync_add [OF inv(1) none, of s] app_present_add [OF inv(2) assms(3), of s]
    by (simp add: bind_scope_obj [OF ok])
qed

lemma init_obj:
  "objs (snd (init w self)) self =
     (objs w self)
       \<lparr>scopes := [ApplicationScope \<mapsto> next_scope w, ThreadScope \<mapsto> Suc (next_scope w),
                   RequestScope \<mapsto> Suc (Suc (next_scope w))],
        scopes_stack := [next_scope w, Suc (next_scope w), Suc (Suc (next_scope w))],
        app_scope := next_scope w\<rparr>"
  by (simp add: init_defs scope_defs)

lemma init_keeps:
  "in_sync (objs (snd (init w self)) self) \<and> app_present (objs (snd (init w self)) self)"
proof -
  let ?n = "next_scope w"
  let ?ob0 = "(objs w self)\<lparr>scopes := Map.empty, scopes_stack := [], app_scope := ?n\<rparr>"
  have s0: "in_sync ?ob0"
    by (simp add: in_sync_def)
  have s1: "in_sync (?ob0\<lparr>scopes := [ApplicationScope \<mapsto> ?n], scopes_stack := [?n]\<rparr>)"
    using in_sync_add [OF s0, of ApplicationScope ?n] by simp
  have s2: "in_sync (?ob0\<lparr>scopes := [ApplicationScope \<mapsto> ?n, ThreadScope \<mapsto> Suc ?n],
                          scopes_stack := [?n, Suc ?n]\<rparr>)"
    using in_sync_add [OF s1, of ThreadScope "Suc ?n"] by simp
  have s3: "in_sync (?ob0\<lparr>scopes := [ApplicationScope \<mapsto> ?n, ThreadScope \<mapsto> Suc ?n,
                                       RequestScope \<mapsto> Suc (Suc ?n)],
                          scopes_stack := [?n, Suc ?n, Suc (Suc ?n)]\<rparr>)"
    using in_sync_add [OF s2, of RequestScope "Suc (Suc ?n)"] by simp
  show ?thesis
    using s3 by (simp add: init_obj app_present_def in_sync_def)
qed

lemma apply_op_keeps:
  assumes "in_sync (objs w self)" "app_present (objs w self)" "\<not> on_application_scope c"
  shows "in_sync (objs (apply_op py self w c) self) \<and>
         app_present (objs (apply_op py self w c) self)"
proof (cases c)
  case (BindScope k s)
  then show ?thesis
    using assms bind_scope_keeps [of w self k s]
    by (simp add: apply_op_def on_application_scope_def)
next
  case (UnbindScope k)
  then show ?thesis
    using assms unbind_scope_keeps [of w self k]
    by (simp add: apply_op_def on_application_scope_def)
next
  case Clear
  then show ?thesis
    using init_keeps [of w self] by (simp add: apply_op_def clear_def)
qed (use assms in \<open>simp_all add: apply_op_def objs_bind objs_unbind objs_get
       objs_bind_factory objs_unbind_factory objs_register objs_unregister\<close>)

lemma run_ops_keeps:
  assumes "in_sync (objs w self)" "app_present (objs w self)"
    and "\<forall>c\<in>set cs. \<not> on_application_scope c"
  shows "in_sync (objs (run_ops py self w cs) self) \<and>
         app_present (objs (run_ops py self w cs) self)"
  using assms
proof (induction cs arbitrary: w)
  case Nil
  then show ?case by (simp add: run_ops_def)
next
  case (Cons c cs)
  have step: "in_sync (objs (apply_op py self w c) self) \<and>
              app_present (objs (apply_op py self w c) self)"
    using Cons.prems by (simp add: apply_op_keeps)
  have "in_sync (objs (run_ops py self (apply_op py self w c) cs) self) \<and>
        app_present (objs (run_ops py self (apply_op py self w c) cs) self)"
    using step Cons.prems(3) by (intro Cons.IH) simp_all
  then show ?case
    by (simp add: run_ops_def)
qed

lemma new_Injector_result:
  "fst (new_Injector w a e) = Inr (next_injector w)"
  by (simp add: init_defs scope_defs)

lemma new_Injector_keeps:
  "in_sync (objs (snd (new_Injector w a e)) (next_injector w)) \<and>
   app_present (objs (snd (new_Injector w a e)) (next_injector w))"
proof -
  let ?w1 = "(upd w (next_injector w) (\<lambda>ob. ob\<lparr>autobind := a\<rparr>))\<lparr>next_injector := Suc (next_injector w)\<rparr>"
  have "snd (new_Injector w a e) = snd (init ?w1 (next_injector w))"
    by (cases "init ?w1 (next_injector w)") (simp add: new_Injector_def Let_def split: sum.split)
  then show ?thesis
    using init_keeps [of ?w1 "next_injector w"] by simp
qed

text \<open>
  Claim C8, as stated, on a new injector: after \<^verbatim>\<open>unbind_scope(ApplicationScope)\<close>
  the application scope is neither bound nor in the stack, and a key bound afterwards
  is not found by \<^verbatim>\<open>get\<close>.
\<close>

theorem application_scope_counterexample:
  "fst (new_Injector world0 True False) = Inr 0 \<and>
   \<not> is_scope_bound (run_ops Map.empty 0 world1 [UnbindScope ApplicationScope]) 0 ApplicationScope \<and>
   app_scope (objs (run_ops Map.empty 0 world1 [UnbindScope ApplicationScope]) 0)
     \<notin> set (scopes_stack (objs (run_ops Map.empty 0 world1 [UnbindScope ApplicationScope]) 0)) \<and>
   fst (get Map.empty
          (run_ops Map.empty 0 world1 [UnbindScope ApplicationScope, Bind (Type 4) (Obj 9)])
          0 (Type 4) False) = Inl (NotBoundError (Type 4))"
  by (simp add: run_ops_def apply_op_def is_scope_bound_def world1_def init_defs scope_defs
        world0_def get_defs)

text \<open>
  Claim C8, amended. After construction and any sequence of operations none of which is
  \<^verbatim>\<open>bind_scope\<close> or \<^verbatim>\<open>unbind_scope\<close> of the key \<^verbatim>\<open>ApplicationScope\<close>, the
  application scope is bound, it is in the scope stack, and it is the scope registered
  under \<^verbatim>\<open>ApplicationScope\<close>.
\<close>

theorem application_scope_stays:
  assumes "\<forall>c\<in>set cs. \<not> on_application_scope c"
  shows "is_scope_bound (run_ops py (next_injector w) (snd (new_Injector w a e)) cs)
           (next_injector w) ApplicationScope \<and>
         app_scope (objs (run_ops py (next_injector w) (snd (new_Injector w a e)) cs)
                      (next_injector w))
           \<in> set (scopes_stack (objs (run_ops py (next_injector w) (snd (new_Injector w a e)) cs)
                      (next_injector w))) \<and>
         scopes (objs (run_ops py (next_injector w) (snd (new_Injector w a e)) cs)
                      (next_injector w)) ApplicationScope =
           Some (app_scope (objs (run_ops py (next_injector w) (snd (new_Injector w a e)) cs)
                      (next_injector w)))"
  using run_ops_keeps [of "snd (new_Injector w a e)" "next_injector w" cs py] new_Injector_keeps [of w a e] assms
  by (simp add: app_present_def is_scope_bound_def)

theorem application_scope_stays_witness:
  "is_scope_bound
     (run_ops [Type 3 \<mapsto> Constructs] 0 world1
        [Bind (Type 1) (Obj 5), UnbindScope ThreadScope, BindScope (Type 2) 0,
         UnbindScope (Type 2), Get (Type 3) False, Clear, Unbind Injector])
     0 ApplicationScope \<and>
   app_scope (objs (run_ops [Type 3 \<mapsto> Constructs] 0 world1
        [Bind (Type 1) (Obj 5), UnbindScope ThreadScope, BindScope (Type 2) 0,
         UnbindScope (Type 2), Get (Type 3) False, Clear, Unbind Injector]) 0)
     \<in> set (scopes_stack (objs (run_ops [Type 3 \<mapsto> Constructs] 0 world1
        [Bind (Type 1) (Obj 5), UnbindScope ThreadScope, BindScope (Type 2) 0,
         UnbindScope (Type 2), Get (Type 3) False, Clear, Unbind Injector]) 0)) \<and>
   scopes (objs (run_ops [Type 3 \<mapsto> Constructs] 0 world1
        [Bind (Type 1) (Obj 5), UnbindScope ThreadScope, BindScope (Type 2) 0,
         UnbindScope (Type 2), Get (Type 3) False, Clear, Unbind Injector]) 0) ApplicationScope =
     Some (app_scope (objs (run_ops [Type 3 \<mapsto> Constructs] 0 world1
        [Bind (Type 1) (Obj 5), UnbindScope ThreadScope, BindScope (Type 2) 0,
         UnbindScope (Type 2), Get (Type 3) False, Clear, Unbind Injector]) 0))"
proof -
  have allowed: "\<forall>c\<in>set [Bind (Type 1) (Obj 5), UnbindScope ThreadScope, BindScope (Type 2) 0,
         UnbindScope (Type 2), Get (Type 3) False, Clear, Unbind Injector].
           \<not> on_application_scope c"
    by (simp add: on_application_scope_def)
  have n: "next_injector world0 = 0"
    by (simp add: world0_def)
  show ?thesis
    using application_scope_stays
            [where w = world0 and a = True and e = False and py = "[Type 3 \<mapsto> Constructs]",
             OF allowed]
    by (simp only: n world1_def)
qed

section \<open>The first scope of the stack answers\<close>

subsection \<open>Bindings of other keys\<close>

lemma bindings_Scope_ops:
  "bindings (heap (Scope_bind w s' k v) s) T =
     (if s = s' \<and> T = k then Some v else bindings (heap w s) T)"
  "bindings (heap (Scope_unbind w s' k) s) T =
     (if s = s' \<and> T = k then None else bindings (heap w s) T)"
  "bindings (heap (Scope_bind_factory w s' k f) s) = bindings (heap w s)"
  "bindings (heap (Scope_unbind_factory w s' k) s) = bindings (heap w s)"
  by (simp_all add: scope_defs)

lemma bindings_unbind:
  "k \<noteq> T \<Longrightarrow> bindings (heap (unbind w self k) s) T = bindings (heap w s) T"
  by (simp add: unbind_def bindings_Scope_ops split: option.split)

lemma bindings_bind:
  "k \<noteq> T \<Longrightarrow> bindings (heap (bind w self k v) s) T = bindings (heap w s) T"
  by (simp add: bind_def Let_def bindings_Scope_ops bindings_unbind)

lemma bindings_unbind_factory:
  "bindings (heap (unbind_factory w self k) s) = bindings (heap w s)"
  by (simp add: unbind_factory_def bindings_Scope_ops split: option.split)

lemma bindings_bind_factory:
  "bindings (heap (bind_factory w self k f) s) = bindings (heap w s)"
  by (simp add: bind_factory_def Let_def bindings_Scope_ops bindings_unbind_factory)

lemma heap_call: "heap (snd (call c w)) = heap w"
  by (cases c) (simp_all add: call_def)

lemma bindings_Scope_get:
  assumes "k \<noteq> T"
  shows "bindings (heap (snd (Scope_get w s' k)) s) T = bindings (heap w s) T"
proof -
  have "bindings (heap (snd (case call f w of
                     (Inl e, w') \<Rightarrow> (Inl (Raised e), w')
                   | (Inr v, w') \<Rightarrow> (Inr v, Scope_bind w' s' k v))) s) T =
        bindings (heap w s) T" for f
    using heap_call [of f w] assms
    by (cases "call f w") (auto simp: bindings_Scope_ops split: sum.split)
  then show ?thesis
    by (simp add: Scope_get_def split: option.split)
qed

lemma bindings_get:
  assumes "k \<noteq> T"
  shows "bindings (heap (snd (get py w self k none)) s) T = bindings (heap w s) T"
proof -
  have c: "\<And>c r w'. call c w = (r, w') \<Longrightarrow> heap w' = heap w"
    using call_frame by blast
  show ?thesis
    using assms
    by (auto simp: get_def bindings_Scope_get bindings_bind c
             split: option.split prod.split sum.split)
qed

lemma heap_register: "heap (snd (register w self)) = heap w"
  by (simp add: reg_defs split: option.split)

lemma heap_unregister: "heap (unregister w self) = heap w"
  by (simp add: reg_defs)

subsection \<open>A key bound in the application scope at the head of the stack\<close>

lemma get_bound_first:
  assumes "bound_first w self T x"
  shows "get py w self T none = (Inr x, w)"
proof -
  obtain rest where st: "scopes_stack (objs w self) = app_scope (objs w self) # rest"
    and b: "bindings (heap w (app_scope (objs w self))) T = Some x"
    using assms by (auto simp: bound_first_def split: list.splits)
  show ?thesis
    using b by (simp add: get_def st Scope_is_bound_def Scope_get_def)
qed

lemma bind_bound_first:
  assumes "scopes_stack (objs w self) = app_scope (objs w self) # rest"
  shows "bound_first (bind w self T x) self T x"
  using assms by (simp add: bound_first_def objs_bind)
     (simp add: bind_def Let_def objs_unbind bindings_Scope_ops)

lemma bound_first_frame:
  assumes "bound_first w self T x" "objs w' = objs w"
    and "\<And>s. bindings (heap w' s) T = bindings (heap w s) T"
  shows "bound_first w' self T x"
  using assms by (auto simp: bound_first_def split: list.splits)

lemma bindings_unbind_scope:
  "k \<noteq> T \<Longrightarrow> bindings (heap (snd (unbind_scope w self k)) s) T = bindings (heap w s) T"
  by (simp add: unbind_scope_def upd_def Let_def bindings_unbind split: option.split)

lemma bindings_bind_scope:
  assumes "k \<noteq> T"
  shows "bindings (heap (snd (bind_scope w self k s')) s) T = bindings (heap w s) T"
  using assms bindings_unbind_scope [of k T w self s]
  by (cases "unbind_scope w self k")
     (auto simp: bind_scope_def upd_def Let_def bindings_bind split: sum.split)

lemma bind_scope_obj_any:
  "objs (snd (bind_scope w self k s)) self =
     (case fst (unbind_scope w self k) of
        Inl e \<Rightarrow> objs (snd (unbind_scope w self k)) self
      | Inr u \<Rightarrow>
          (objs (snd (unbind_scope w self k)) self)
            \<lparr>scopes := (scopes (objs (snd (unbind_scope w self k)) self))(k \<mapsto> s),
             scopes_stack := scopes_stack (objs (snd (unbind_scope w self k)) self) @ [s]\<rparr>)"
  by (cases "unbind_scope w self k")
     (auto simp: bind_scope_def upd_def Let_def objs_bind split: sum.split)

lemma unbind_scope_settled:
  assumes "bound_first w self T x" "app_only (objs w self)"
    and "k \<noteq> T" "k \<noteq> ApplicationScope"
  shows "bound_first (snd (unbind_scope w self k)) self T x \<and>
         app_only (objs (snd (unbind_scope w self k)) self) \<and>
         app_scope (objs (snd (unbind_scope w self k)) self) = app_scope (objs w self)"
proof (cases "scopes (objs w self) k")
  case None
  then show ?thesis
    using assms(1,2) by (simp add: unbind_scope_def)
next
  case (Some s)
  then have ne: "s \<noteq> app_scope (objs w self)"
    using assms(2,4) by (auto simp: app_only_def)
  obtain rest where st: "scopes_stack (objs w self) = app_scope (objs w self) # rest"
    and b: "bindings (heap w (app_scope (objs w self))) T = Some x"
    using assms(1) by (auto simp: bound_first_def split: list.splits)
  show ?thesis
    using Some ne st b assms(2,3)
    by (auto simp: bound_first_def app_only_def unbind_scope_obj bindings_unbind_scope)
qed

lemma bind_scope_settled:
  assumes "bound_first w self T x" "app_only (objs w self)"
    and "k \<noteq> T" "k \<noteq> ApplicationScope" "s \<noteq> app_scope (objs w self)"
  shows "bound_first (snd (bind_scope w self k s)) self T x \<and>
         app_only (objs (snd (bind_scope w self k s)) self) \<and>
         app_scope (objs (snd (bind_scope w self k s)) self) = app_scope (objs w self)"
proof -
  let ?w1 = "snd (unbind_scope w self k)"
  have u: "bound_first ?w1 self T x" "app_only (objs ?w1 self)"
    "app_scope (objs ?w1 self) = app_scope (objs w self)"
    using unbind_scope_settled [OF assms(1-4)] by simp_all
  obtain rest where st: "scopes_stack (objs ?w1 self) = app_scope (objs w self) # rest"
    using u(1,3) by (auto simp: bound_first_def split: list.splits)
  have b: "bindings (heap w (app_scope (objs w self))) T = Some x"
    using assms(1) by (auto simp: bound_first_def split: list.splits)
  show ?thesis
    using u(2,3) st b assms(3,5)
    by (auto simp: bound_first_def app_only_def bind_scope_obj_any bindings_bind_scope
             split: sum.split)
qed

lemma apply_op_settled:
  assumes "bound_first w self T x" "app_only (objs w self)"
    and "\<not> disturbs T (app_scope (objs w self)) c"
  shows "bound_first (apply_op py self w c) self T x \<and>
         app_only (objs (apply_op py self w c) self) \<and>
         app_scope (objs (apply_op py self w c) self) = app_scope (objs w self)"
proof (cases c)
  case (Get k none)
  show ?thesis
  proof (cases "k = T")
    case True
    then show ?thesis
      using Get assms(1,2) by (simp add: apply_op_def get_bound_first)
  next
    case False
    then show ?thesis
      using Get assms(2) bound_first_frame [OF assms(1), of "snd (get py w self k none)"]
      by (simp add: apply_op_def objs_get bindings_get)
  qed
next
  case (Bind k v)
  then show ?thesis
    using assms(2,3) bound_first_frame [OF assms(1), of "bind w self k v"]
    by (simp add: apply_op_def disturbs_def objs_bind bindings_bind)
next
  case (Unbind k)
  then show ?thesis
    using assms(2,3) bound_first_frame [OF assms(1), of "unbind w self k"]
    by (simp add: apply_op_def disturbs_def objs_unbind bindings_unbind)
next
  case (BindFactory k f)
  then show ?thesis
    using assms(2) bound_first_frame [OF assms(1), of "bind_factory w self k f"]
    by (simp add: apply_op_def objs_bind_factory bindings_bind_factory)
next
  case (UnbindFactory k)
  then show ?thesis
    using assms(2) bound_first_frame [OF assms(1), of "unbind_factory w self k"]
    by (simp add: apply_op_def objs_unbind_factory bindings_unbind_factory)
next
  case (BindScope k s)
  then show ?thesis
    using assms(3) bind_scope_settled [OF assms(1,2), of k s]
    by (simp add: apply_op_def disturbs_def)
next
  case (UnbindScope k)
  then show ?thesis
    using assms(3) unbind_scope_settled [OF assms(1,2), of k]
    by (simp add: apply_op_def disturbs_def)
next
  case Clear
  then show ?thesis
    using assms(3) by (simp add: disturbs_def)
next
  case Register
  then show ?thesis
    using assms(2) bound_first_frame [OF assms(1), of "snd (register w self)"]
    by (simp add: apply_op_def objs_register heap_register)
next
  case Unregister
  then show ?thesis
    using assms(2) bound_first_frame [OF assms(1), of "unregister w self"]
    by (simp add: apply_op_def objs_unregister heap_unregister)
qed

lemma run_ops_settled:
  assumes "bound_first w self T x" "app_only (objs w self)"
    and "\<forall>c\<in>set cs. \<not> disturbs T (app_scope (objs w self)) c"
  shows "bound_first (run_ops py self w cs) self T x \<and>
         app_only (objs (run_ops py self w cs) self) \<and>
         app_scope (objs (run_ops py self w cs) self) = app_scope (objs w self)"
  using assms
proof (induction cs arbitrary: w)
  case Nil
  then show ?case by (simp add: run_ops_def)
next
  case (Cons c cs)
  let ?w1 = "apply_op py self w c"
  have step: "bound_first ?w1 self T x" "app_only (objs ?w1 self)"
    "app_scope (objs ?w1 self) = app_scope (objs w self)"
    using apply_op_settled [of w self T x c py] Cons.prems by simp_all
  have "bound_first (run_ops py self ?w1 cs) self T x \<and>
        app_only (objs (run_ops py self ?w1 cs) self) \<and>
        app_scope (objs (run_ops py self ?w1 cs) self) = app_scope (objs ?w1 self)"
    using step Cons.prems(3) by (intro Cons.IH) simp_all
  then show ?case
    using step(3) by (simp add: run_ops_def)
qed




section \<open>Binding and resolving\<close>

text \<open>
  Claim C1, as stated, on a new injector after \<^verbatim>\<open>unbind_scope(ApplicationScope)\<close>,
  and on a new injector after \<^verbatim>\<open>bind_scope(ApplicationScope, s)\<close> with a new scope
  \<open>s\<close> (the application scope is then still bound): \<^verbatim>\<open>bind(T, to=x)\<close> followed by
  \<^verbatim>\<open>get(T)\<close> fails with \<^verbatim>\<open>NotBoundError\<close>.
\<close>

theorem bind_then_get_counterexample:
  "\<not> is_scope_bound (snd (unbind_scope world1 0 ApplicationScope)) 0 ApplicationScope \<and>
   get Map.empty (bind (snd (unbind_scope world1 0 ApplicationScope)) 0 (Type 4) (Obj 9))
       0 (Type 4) False =
     (Inl (NotBoundError (Type 4)),
      bind (snd (unbind_scope world1 0 ApplicationScope)) 0 (Type 4) (Obj 9)) \<and>
   is_scope_bound
     (snd (bind_scope (snd (new_scope world1)) 0 ApplicationScope (fst (new_scope world1))))
     0 ApplicationScope \<and>
   get Map.empty
       (bind (snd (bind_scope (snd (new_scope world1)) 0 ApplicationScope
                     (fst (new_scope world1))))
          0 (Type 4) (Obj 9))
       0 (Type 4) False =
     (Inl (NotBoundError (Type 4)),
      bind (snd (bind_scope (snd (new_scope world1)) 0 ApplicationScope
                   (fst (new_scope world1))))
        0 (Type 4) (Obj 9))"
  by (simp add: is_scope_bound_def world1_def world0_def init_defs scope_defs get_defs)

text \<open>
  Claim C1, amended. On an injector whose application scope is the first scope of the
  stack and is registered as a scope under no key but \<^verbatim>\<open>ApplicationScope\<close>, after
  \<^verbatim>\<open>bind(T, to=a)\<close> and any further operations that neither bind nor unbind \<open>T\<close>
  nor bind or unbind the application scope as a scope, \<^verbatim>\<open>get(T)\<close> returns the object
  \<open>a\<close> itself and changes nothing; after a second \<^verbatim>\<open>bind(T, to=b)\<close> it returns \<open>b\<close>.
\<close>

theorem bind_then_get:
  assumes "scopes_stack (objs w self) = app_scope (objs w self) # rest"
    and "\<forall>k. scopes (objs w self) k = Some (app_scope (objs w self)) \<longrightarrow> k = ApplicationScope"
    and "\<forall>c\<in>set cs. \<not> disturbs T (app_scope (objs w self)) c"
    and "\<forall>c\<in>set ds. \<not> disturbs T (app_scope (objs w self)) c"
  shows "get py (run_ops py self (bind w self T a) cs) self T none =
           (Inr a, run_ops py self (bind w self T a) cs) \<and>
         get py (run_ops py self (bind (run_ops py self (bind w self T a) cs) self T b) ds)
               self T none =
           (Inr b, run_ops py self (bind (run_ops py self (bind w self T a) cs) self T b) ds)"
proof -
  let ?w0 = "bind w self T a"
  let ?w1 = "run_ops py self ?w0 cs"
  let ?w2 = "bind ?w1 self T b"
  have only: "app_only (objs ?w0 self)"
    using assms(2) by (simp add: app_only_def objs_bind)
  have cs: "\<forall>c\<in>set cs. \<not> disturbs T (app_scope (objs ?w0 self)) c"
    using assms(3) by (simp add: objs_bind)
  have s1: "bound_first ?w1 self T a" "app_only (objs ?w1 self)"
    "app_scope (objs ?w1 self) = app_scope (objs ?w0 self)"
    using run_ops_settled [OF bind_bound_first [OF assms(1)] only cs] by simp_all
  obtain rest' where st: "scopes_stack (objs ?w1 self) = app_scope (objs ?w1 self) # rest'"
    using s1(1) by (auto simp: bound_first_def split: list.splits)
  have only2: "app_only (objs ?w2 self)"
    using s1(2) by (simp add: objs_bind)
  have ds: "\<forall>c\<in>set ds. \<not> disturbs T (app_scope (objs ?w2 self)) c"
    using assms(4) s1(3) by (simp add: objs_bind)
  have s2: "bound_first (run_ops py self ?w2 ds) self T b"
    using run_ops_settled [OF bind_bound_first [OF st] only2 ds] by simp
  show ?thesis
    using s1(1) s2 by (simp add: get_bound_first)
qed

theorem bind_then_get_witness:
  "get [Type 6 \<mapsto> Constructs]
     (run_ops [Type 6 \<mapsto> Constructs] 0 (bind world1 0 (Type 4) (Obj 8))
        [Bind (Type 5) (Obj 1), Get (Type 6) True, UnbindScope ThreadScope,
         BindScope (Type 2) 1, Get (Type 4) False, Unbind (Type 5),
         BindFactory (Type 4) Constructs])
     0 (Type 4) False =
   (Inr (Obj 8),
    run_ops [Type 6 \<mapsto> Constructs] 0 (bind world1 0 (Type 4) (Obj 8))
        [Bind (Type 5) (Obj 1), Get (Type 6) True, UnbindScope ThreadScope,
         BindScope (Type 2) 1, Get (Type 4) False, Unbind (Type 5),
         BindFactory (Type 4) Constructs]) \<and>
   get [Type 6 \<mapsto> Constructs]
     (run_ops [Type 6 \<mapsto> Constructs] 0
        (bind (run_ops [Type 6 \<mapsto> Constructs] 0 (bind world1 0 (Type 4) (Obj 8))
                 [Bind (Type 5) (Obj 1), Get (Type 6) True, UnbindScope ThreadScope,
                  BindScope (Type 2) 1, Get (Type 4) False, Unbind (Type 5),
                  BindFactory (Type 4) Constructs])
           0 (Type 4) (Obj 9))
        [Get (Type 4) True, UnbindScope RequestScope])
     0 (Type 4) False =
   (Inr (Obj 9),
    run_ops [Type 6 \<mapsto> Constructs] 0
        (bind (run_ops [Type 6 \<mapsto> Constructs] 0 (bind world1 0 (Type 4) (Obj 8))
                 [Bind (Type 5) (Obj 1), Get (Type 6) True, UnbindScope ThreadScope,
                  BindScope (Type 2) 1, Get (Type 4) False, Unbind (Type 5),
                  BindFactory (Type 4) Constructs])
           0 (Type 4) (Obj 9))
        [Get (Type 4) True, UnbindScope RequestScope])"
proof -
  have head: "scopes_stack (objs world1 0) = app_scope (objs world1 0) # [Suc 0, Suc (Suc 0)]"
    by (simp add: world1_eval)
  have once: "\<forall>k. scopes (objs world1 0) k = Some (app_scope (objs world1 0)) \<longrightarrow>
                k = ApplicationScope"
    by (simp add: world1_eval)
  have quiet: "\<forall>c\<in>set [Bind (Type 5) (Obj 1), Get (Type 6) True, UnbindScope ThreadScope,
                       BindScope (Type 2) 1, Get (Type 4) False, Unbind (Type 5),
                       BindFactory (Type 4) Constructs].
                 \<not> disturbs (Type 4) (app_scope (objs world1 0)) c"
    by (simp add: disturbs_def world1_eval)
  have quiet2: "\<forall>c\<in>set [Get (Type 4) True, UnbindScope RequestScope].
                 \<not> disturbs (Type 4) (app_scope (objs world1 0)) c"
    by (simp add: disturbs_def)
  show ?thesis
    by (rule bind_then_get [where py = "[Type 6 \<mapsto> Constructs]", OF head once quiet quiet2])
qed

section \<open>Clearing\<close>

text \<open>
  Claim C7, as stated, on a new injector: the keys \<^verbatim>\<open>ApplicationScope\<close> and
  \<^verbatim>\<open>Injector\<close> are bound before \<^verbatim>\<open>clear\<close> and are bound after it.
\<close>

theorem clear_keeps_default_keys_counterexample:
  "is_bound world1 0 ApplicationScope \<and> is_bound world1 0 Injector \<and>
   fst (clear world1 0) = Inr () \<and>
   is_bound (snd (clear world1 0)) 0 ApplicationScope \<and>
   is_bound (snd (clear world1 0)) 0 Injector"
  by (simp add: world1_def world0_def init_defs scope_defs)

text \<open>
  Claim C7, amended. \<^verbatim>\<open>clear\<close> succeeds; afterwards no key other than the four keys
  of the default configuration is bound, no key has a factory, the three scope types are
  bound as scopes, the scope stack holds three new scopes in the order application,
  thread, request, and \<^verbatim>\<open>get\<close> resolves \<^verbatim>\<open>Injector\<close> to the injector itself and
  the three scope types to the new scopes.
\<close>

theorem clear_reinitializes:
  "fst (clear w self) = Inr () \<and>
   \<not> is_bound (snd (clear w self)) self (Type k) \<and>
   \<not> is_factory_bound (snd (clear w self)) self T \<and>
   is_scope_bound (snd (clear w self)) self ApplicationScope \<and>
   is_scope_bound (snd (clear w self)) self ThreadScope \<and>
   is_scope_bound (snd (clear w self)) self RequestScope \<and>
   scopes_stack (objs (snd (clear w self)) self) =
     [next_scope w, Suc (next_scope w), Suc (Suc (next_scope w))] \<and>
   get py (snd (clear w self)) self Injector none =
     (Inr (InjectorObj self), snd (clear w self)) \<and>
   get py (snd (clear w self)) self ApplicationScope none =
     (Inr (ScopeObj (next_scope w)), snd (clear w self)) \<and>
   get py (snd (clear w self)) self ThreadScope none =
     (Inr (ScopeObj (Suc (next_scope w))), snd (clear w self)) \<and>
   get py (snd (clear w self)) self RequestScope none =
     (Inr (ScopeObj (Suc (Suc (next_scope w)))), snd (clear w self))"
  by (simp add: init_defs scope_defs get_defs is_scope_bound_def)

theorem clear_reinitializes_witness:
  "is_bound (bind world1 0 (Type 4) (Obj 9)) 0 (Type 4) \<and>
   \<not> is_bound (snd (clear (bind world1 0 (Type 4) (Obj 9)) 0)) 0 (Type 4) \<and>
   is_scope_bound (snd (clear (bind world1 0 (Type 4) (Obj 9)) 0)) 0 ApplicationScope \<and>
   fst (get Map.empty (snd (clear (bind world1 0 (Type 4) (Obj 9)) 0)) 0 Injector False) =
     Inr (InjectorObj 0)"
  using clear_reinitializes [of "bind world1 0 (Type 4) (Obj 9)" 0 4 "Type 4" Map.empty False]
  by (simp add: world1_def world0_def init_defs scope_defs)

end
